theory Spec2Isabelle
  imports Complex_Main "HOL-Library.Word"
begin

unbundle bit_operations_syntax

section \<open>Python values shared by both decoders\<close>

text \<open>
  The exceptions the modelled code can raise. A function that can raise returns
  \<open>error + 'a\<close>, with \<open>Inl\<close> for the exception.
\<close>

datatype error = IndexError | TypeError | ValueError | KeyError

type_synonym byte = "8 word"

text \<open>
  Python's \<open>xs[i]\<close>: a negative index counts from the end, an index outside
  \<open>-len .. len-1\<close> raises IndexError.
\<close>

definition py_nth :: "'a list \<Rightarrow> int \<Rightarrow> error + 'a" where
  "py_nth xs i =
     (if 0 \<le> i \<and> i < int (length xs) then Inr (xs ! nat i)
      else if - int (length xs) \<le> i \<and> i < 0 then Inr (xs ! nat (i + int (length xs)))
      else Inl IndexError)"

section \<open>ntripdecoder.py: CRC24\<close>

definition RTCM_START :: byte where
  "RTCM_START = 0xd3"

definition CRC24_TABLE :: "nat list" where
  "CRC24_TABLE = [
    0x000000, 0x864cfb, 0x8ad50d, 0x0c99f6, 0x93e6e1, 0x15aa1a, 0x1933ec, 0x9f7f17,
    0xa18139, 0x27cdc2, 0x2b5434, 0xad18cf, 0x3267d8, 0xb42b23, 0xb8b2d5, 0x3efe2e,
    0xc54e89, 0x430272, 0x4f9b84, 0xc9d77f, 0x56a868, 0xd0e493, 0xdc7d65, 0x5a319e,
    0x64cfb0, 0xe2834b, 0xee1abd, 0x685646, 0xf72951, 0x7165aa, 0x7dfc5c, 0xfbb0a7,
    0x0cd1e9, 0x8a9d12, 0x8604e4, 0x00481f, 0x9f3708, 0x197bf3, 0x15e205, 0x93aefe,
    0xad50d0, 0x2b1c2b, 0x2785dd, 0xa1c926, 0x3eb631, 0xb8faca, 0xb4633c, 0x322fc7,
    0xc99f60, 0x4fd39b, 0x434a6d, 0xc50696, 0x5a7981, 0xdc357a, 0xd0ac8c, 0x56e077,
    0x681e59, 0xee52a2, 0xe2cb54, 0x6487af, 0xfbf8b8, 0x7db443, 0x712db5, 0xf7614e,
    0x19a3d2, 0x9fef29, 0x9376df, 0x153a24, 0x8a4533, 0x0c09c8, 0x00903e, 0x86dcc5,
    0xb822eb, 0x3e6e10, 0x32f7e6, 0xb4bb1d, 0x2bc40a, 0xad88f1, 0xa11107, 0x275dfc,
    0xdced5b, 0x5aa1a0, 0x563856, 0xd074ad, 0x4f0bba, 0xc94741, 0xc5deb7, 0x43924c,
    0x7d6c62, 0xfb2099, 0xf7b96f, 0x71f594, 0xee8a83, 0x68c678, 0x645f8e, 0xe21375,
    0x15723b, 0x933ec0, 0x9fa736, 0x19ebcd, 0x8694da, 0x00d821, 0x0c41d7, 0x8a0d2c,
    0xb4f302, 0x32bff9, 0x3e260f, 0xb86af4, 0x2715e3, 0xa15918, 0xadc0ee, 0x2b8c15,
    0xd03cb2, 0x567049, 0x5ae9bf, 0xdca544, 0x43da53, 0xc596a8, 0xc90f5e, 0x4f43a5,
    0x71bd8b, 0xf7f170, 0xfb6886, 0x7d247d, 0xe25b6a, 0x641791, 0x688e67, 0xeec29c,
    0x3347a4, 0xb50b5f, 0xb992a9, 0x3fde52, 0xa0a145, 0x26edbe, 0x2a7448, 0xac38b3,
    0x92c69d, 0x148a66, 0x181390, 0x9e5f6b, 0x01207c, 0x876c87, 0x8bf571, 0x0db98a,
    0xf6092d, 0x7045d6, 0x7cdc20, 0xfa90db, 0x65efcc, 0xe3a337, 0xef3ac1, 0x69763a,
    0x578814, 0xd1c4ef, 0xdd5d19, 0x5b11e2, 0xc46ef5, 0x42220e, 0x4ebbf8, 0xc8f703,
    0x3f964d, 0xb9dab6, 0xb54340, 0x330fbb, 0xac70ac, 0x2a3c57, 0x26a5a1, 0xa0e95a,
    0x9e1774, 0x185b8f, 0x14c279, 0x928e82, 0x0df195, 0x8bbd6e, 0x872498, 0x016863,
    0xfad8c4, 0x7c943f, 0x700dc9, 0xf64132, 0x693e25, 0xef72de, 0xe3eb28, 0x65a7d3,
    0x5b59fd, 0xdd1506, 0xd18cf0, 0x57c00b, 0xc8bf1c, 0x4ef3e7, 0x426a11, 0xc426ea,
    0x2ae476, 0xaca88d, 0xa0317b, 0x267d80, 0xb90297, 0x3f4e6c, 0x33d79a, 0xb59b61,
    0x8b654f, 0x0d29b4, 0x01b042, 0x87fcb9, 0x1883ae, 0x9ecf55, 0x9256a3, 0x141a58,
    0xefaaff, 0x69e604, 0x657ff2, 0xe33309, 0x7c4c1e, 0xfa00e5, 0xf69913, 0x70d5e8,
    0x4e2bc6, 0xc8673d, 0xc4fecb, 0x42b230, 0xddcd27, 0x5b81dc, 0x57182a, 0xd154d1,
    0x26359f, 0xa07964, 0xace092, 0x2aac69, 0xb5d37e, 0x339f85, 0x3f0673, 0xb94a88,
    0x87b4a6, 0x01f85d, 0x0d61ab, 0x8b2d50, 0x145247, 0x921ebc, 0x9e874a, 0x18cbb1,
    0xe37b16, 0x6537ed, 0x69ae1b, 0xefe2e0, 0x709df7, 0xf6d10c, 0xfa48fa, 0x7c0401,
    0x42fa2f, 0xc4b6d4, 0xc82f22, 0x4e63d9, 0xd11cce, 0x575035, 0x5bc9c3, 0xdd8538]"

text \<open>
  The loop of \<open>crc24\<close>. \<open>val\<close> is a Python integer (unbounded, never negative
  here), a byte of \<open>data\<close> is an integer in \<open>0..255\<close>, and the table read
  \<open>CRC24_TABLE[byte ^ ((val >> 16) & 0xff)]\<close> raises IndexError outside the table.
\<close>

fun crc24_loop :: "nat \<Rightarrow> byte list \<Rightarrow> error + nat" where
  "crc24_loop val [] = Inr val"
| "crc24_loop val (b # bs) =
     (case py_nth CRC24_TABLE (int (unat b XOR (drop_bit 16 val AND 0xff))) of
        Inl e \<Rightarrow> Inl e
      | Inr t \<Rightarrow> crc24_loop (push_bit 8 val XOR t) bs)"

definition crc24 :: "byte list \<Rightarrow> error + nat" where
  "crc24 data =
     (case crc24_loop 0 data of Inl e \<Rightarrow> Inl e | Inr val \<Rightarrow> Inr (val AND 0xffffff))"

text \<open>One pass of the loop body with the table read in range, for the proofs.\<close>

definition crc24_step :: "nat \<Rightarrow> byte \<Rightarrow> nat" where
  "crc24_step val b = push_bit 8 val XOR CRC24_TABLE ! (unat b XOR (drop_bit 16 val AND 0xff))"

text \<open>The 24-bit value \<open>crc24\<close> returns, as a total function.\<close>

definition crc24_val :: "byte list \<Rightarrow> nat" where
  "crc24_val bs = take_bit 24 (foldl crc24_step 0 bs)"

section \<open>ntripdecoder.py: the stream reassembler\<close>

text \<open>
  \<open>bin_index\<close>: \<open>data.index(b)\<close> is the offset of the first occurrence; its
  ValueError is caught and becomes \<open>-1\<close>.
\<close>

fun bin_index :: "byte list \<Rightarrow> byte \<Rightarrow> int" where
  "bin_index [] b = -1"
| "bin_index (x # xs) b =
     (if x = b then 0
      else (let i = bin_index xs b in if i < 0 then -1 else i + 1))"

text \<open>
  \<open>NtripDecode.get_msg\<close>, on the accumulator \<open>self.data\<close>. The result is the
  returned message \<open>d\<close>, the accumulator after the call and the lines printed. The
  slices \<open>data[0:idx]\<close> and \<open>data[idx:]\<close> are taken only where \<open>idx\<close> is positive,
  so they are \<open>take\<close> and \<open>drop\<close>; \<open>and\<close> evaluates its right operand only when the
  left one holds.
\<close>

definition get_msg :: "byte list \<Rightarrow> error + (byte list \<times> byte list \<times> string list)" where
  "get_msg data =
    (let idx = bin_index data RTCM_START in
     case (if idx > 3 then
             (case py_nth data (idx - 2) of
                Inl e \<Rightarrow> Inl e
              | Inr c \<Rightarrow>
                  if c = 0xd then
                    (case py_nth data (idx - 1) of
                       Inl e \<Rightarrow> Inl e
                     | Inr l \<Rightarrow> Inr (l = 0xa))
                  else Inr False)
           else Inr False) of
       Inl e \<Rightarrow> Inl e
     | Inr True \<Rightarrow> Inr (take (nat idx) data, drop (nat idx) data, [])
     | Inr False \<Rightarrow>
         if idx = 0 \<and> length data > 2 then
           (case py_nth data 1 of
              Inl e \<Rightarrow> Inl e
            | Inr b1 \<Rightarrow>
               (case py_nth data 2 of
                  Inl e \<Rightarrow> Inl e
                | Inr b2 \<Rightarrow>
                   (let n = push_bit 8 (unat b1) + unat b2 in
                    if n > 1024 then Inr ([], [], [])
                    else if length data \<ge> n + 6 then
                      (let d = take (n + 6) data in
                       case crc24 d of
                         Inl e \<Rightarrow> Inl e
                       | Inr crc \<Rightarrow>
                           if crc = 0 then Inr (d, drop (length d) data, [])
                           else Inr ([], [], [''CRC error'']))
                    else Inr ([], data, []))))
         else if idx > 0 then Inr ([], drop (nat idx) data, [''Extra data''])
         else Inr ([], data, []))"

text \<open>
  \<open>NtripDecode.receive_rtcm\<close>: \<open>part\<close> is what \<open>poll\<close> returned, \<open>None\<close> or the
  bytes received; \<open>if part\<close> is false for \<open>None\<close> and for the empty byte string.
  \<open>append_part\<close> is the accumulator after \<open>self.data += part\<close>.
\<close>

definition append_part :: "byte list \<Rightarrow> byte list option \<Rightarrow> byte list" where
  "append_part data part =
     (case part of None \<Rightarrow> data | Some p \<Rightarrow> if p \<noteq> [] then data @ p else data)"

definition receive_rtcm ::
  "byte list \<Rightarrow> byte list option \<Rightarrow> error + (byte list \<times> byte list \<times> string list)" where
  "receive_rtcm data part = get_msg (append_part data part)"

text \<open>
  The length word \<open>n = (self.data[1] << 8) + self.data[2]\<close> that \<open>get_msg\<close> reads
  from an accumulator of more than two bytes.
\<close>

definition length_word :: "byte list \<Rightarrow> nat" where
  "length_word data = push_bit 8 (unat (data ! 1)) + unat (data ! 2)"

subsection \<open>The spec's readings, for comparison with the code\<close>

text \<open>
  The spec's frame layout: bytes 1 and 2 hold six reserved bits and a 10-bit big-endian
  payload length; the last three bytes are the CRC24 of the bytes before them, read
  here as a big-endian number.
\<close>

definition declared_len10 :: "byte list \<Rightarrow> nat" where
  "declared_len10 data = push_bit 8 (unat (data ! 1) AND 3) + unat (data ! 2)"

definition be24 :: "byte list \<Rightarrow> nat" where
  "be24 bs = foldl (\<lambda>v b. v * 256 + unat b) 0 bs"

section \<open>Python strings\<close>

text \<open>
  A Python string is modelled by the list of the bytes of its UTF-8 encoding:
  \<open>s.startswith(p)\<close>, the substring test \<open>sub in s\<close> and \<open>s.split(sep)\<close> for an
  ASCII separator give the same answers on the bytes as on the characters.
\<close>

fun startswith :: "string \<Rightarrow> string \<Rightarrow> bool" where
  "startswith s [] = True"
| "startswith [] (p # ps) = False"
| "startswith (c # cs) (p # ps) = (c = p \<and> startswith cs ps)"

fun py_in :: "string \<Rightarrow> string \<Rightarrow> bool" where
  "py_in sub [] = (sub = [])"
| "py_in sub (c # cs) = (startswith (c # cs) sub \<or> py_in sub cs)"

fun split_char :: "char \<Rightarrow> string \<Rightarrow> string list" where
  "split_char sep [] = [[]]"
| "split_char sep (c # cs) =
     (if c = sep then [] # split_char sep cs
      else (case split_char sep cs of
              w # ws \<Rightarrow> (c # w) # ws
            | [] \<Rightarrow> [[c]]))"

section \<open>gpsdecoder.py\<close>

definition RMC_S :: "string list" where
  "RMC_S = [''id'', ''time'', ''status'', ''lat'', ''NS'', ''lon'', ''EW'',
    ''spd'', ''cog'', ''date'', ''mv'', ''mvEW'', ''posMode'', ''navStatus'']"

definition GSA_S :: "string list" where
  "GSA_S = [''id'', ''opMode'', ''navMode'', ''sat1'', ''sat2'', ''sat3'', ''sat4'',
    ''sat5'', ''sat6'', ''sat7'', ''sat8'', ''sat9'', ''sat10'', ''sat11'', ''sat12'',
    ''PDOP'', ''HDOP'', ''VDOP'']"

definition GGA_S :: "string list" where
  "GGA_S = [''id'', ''time'', ''lat'', ''NS'', ''lon'', ''EW'', ''quality'', ''nsats'',
    ''HDOP'', ''alt'', ''altUnit'', ''sep'', ''sepUnit'', ''diffAge'', ''diffStation'']"

text \<open>
  The dictionaries \<open>RMC\<close>, \<open>GSA\<close>, \<open>GGA\<close> are \<open>{S[i]: i for i in range(len(S))}\<close>: a
  name maps to its position in the tuple (the names of each tuple are distinct), and a
  name that is no key raises KeyError.
\<close>

fun dict_of :: "string list \<Rightarrow> string \<Rightarrow> nat option" where
  "dict_of [] s = None"
| "dict_of (k # ks) s = (if k = s then Some 0 else map_option Suc (dict_of ks s))"

definition qualstrs :: "string list" where
  "qualstrs = [''No fix'', ''GNSS fix'', ''GNSS fix'', ''?'', ''RTK fix'', ''RTK float'', ''Estimate'']"

text \<open>\<open>getval\<close>: the field of that name, or \<open>None\<close> when the sentence is too short.\<close>

definition getval :: "string list \<Rightarrow> string list \<Rightarrow> string \<Rightarrow> error + string option" where
  "getval data dict s =
     (case dict_of dict s of
        None \<Rightarrow> Inl KeyError
      | Some i \<Rightarrow> Inr (if i < length data then Some (data ! i) else None))"

text \<open>
  \<open>int\<close> and \<open>float\<close> are builtins of Python: the model takes them as the parameters
  \<open>pint\<close> and \<open>pfloat\<close>, \<open>None\<close> where the builtin raises ValueError on the string. A
  float is taken as a real number. \<open>str2int\<close> and \<open>str2float\<close> catch every exception,
  also the TypeError of \<open>int(None)\<close> and \<open>float(None)\<close>.
\<close>

definition str2int :: "(string \<Rightarrow> int option) \<Rightarrow> string option \<Rightarrow> int \<Rightarrow> int" where
  "str2int pint str dflt =
     (case str of
        None \<Rightarrow> dflt
      | Some s \<Rightarrow> (case pint s of None \<Rightarrow> dflt | Some val \<Rightarrow> val))"

definition str2float :: "(string \<Rightarrow> real option) \<Rightarrow> string option \<Rightarrow> real \<Rightarrow> real" where
  "str2float pfloat str dflt =
     (case str of
        None \<Rightarrow> dflt
      | Some s \<Rightarrow> (case pfloat s of None \<Rightarrow> dflt | Some val \<Rightarrow> val))"

text \<open>
  \<open>degmin_deg\<close>. Nothing is caught here: \<open>len(None)\<close> and \<open>None in "NSEW"\<close> raise
  TypeError, \<open>float\<close> raises ValueError; \<open>nsew in "NSEW"\<close> is the substring test.
\<close>

definition degmin_deg ::
  "(string \<Rightarrow> real option) \<Rightarrow> string option \<Rightarrow> string option \<Rightarrow> error + real" where
  "degmin_deg pfloat dm nsew =
     (case dm of
        None \<Rightarrow> Inl TypeError
      | Some dms \<Rightarrow>
          if length dms \<ge> 4 then
            (case nsew of
               None \<Rightarrow> Inl TypeError
             | Some h \<Rightarrow>
                 if py_in h ''NSEW'' then
                   (let n = (if py_in h ''NS'' then 2 else 3) in
                    case pfloat (take n dms) of
                      None \<Rightarrow> Inl ValueError
                    | Some degs \<Rightarrow>
                       (case pfloat (drop n dms) of
                          None \<Rightarrow> Inl ValueError
                        | Some mins \<Rightarrow>
                           (let deg = degs + mins / 60 in
                            Inr (if h = ''S'' \<or> h = ''W'' then - deg else deg))))
                 else Inr 0)
          else Inr 0)"

text \<open>The fields of \<open>GpsDecode\<close> that the decoder writes, and their values after \<open>__init__\<close>.\<close>

record GpsDecode =
  lat :: real
  lon :: real
  alt :: real
  quality :: int
  pdop :: real
  hdop :: real
  vdop :: real
  nsats :: int
  hour :: int
  min_fld :: int
  sec :: real

definition GpsDecode_init :: GpsDecode where
  "GpsDecode_init = \<lparr>lat = 0, lon = 0, alt = 0, quality = 0, pdop = 0, hdop = 0, vdop = 0,
     nsats = 0, hour = 0, min_fld = 0, sec = 0\<rparr>"

text \<open>What \<open>decode\<close> returns: the empty string, or a boolean.\<close>

datatype decode_ret = RetStr string | RetBool bool

text \<open>
  An exception leaves a function at once: \<open>bind_err\<close> runs the rest only on a value.
\<close>

definition bind_err :: "error + 'a \<Rightarrow> ('a \<Rightarrow> error + 'b) \<Rightarrow> error + 'b" where
  "bind_err r f = (case r of Inl e \<Rightarrow> Inl e | Inr v \<Rightarrow> f v)"

text \<open>
  \<open>GpsDecode.decode\<close> with \<open>verbose\<close> off. The result is what the call returns and the
  object after it; when the call raises, the model gives the exception only (the fields
  assigned before the raise stay assigned in Python).
\<close>

definition decode ::
  "(string \<Rightarrow> int option) \<Rightarrow> (string \<Rightarrow> real option) \<Rightarrow> GpsDecode \<Rightarrow> string
     \<Rightarrow> error + (decode_ret \<times> GpsDecode)" where
  "decode pint pfloat self line =
    (let data = split_char CHR '','' (take (length line - 3) line) in
     if length data < 3 then Inr (RetStr [], self)
     else if data ! 0 = ''$GPGSA'' \<or> data ! 0 = ''$GNGSA'' then
       bind_err (getval data GSA_S ''PDOP'') (\<lambda>p.
       bind_err (getval data GSA_S ''HDOP'') (\<lambda>h.
       bind_err (getval data GSA_S ''VDOP'') (\<lambda>v.
         Inr (RetBool False,
              self\<lparr>pdop := str2float pfloat p 99.99,
                   hdop := str2float pfloat h 99.99,
                   vdop := str2float pfloat v 99.99\<rparr>))))
     else if data ! 0 = ''$GPGGA'' \<or> data ! 0 = ''$GNGGA'' then
       bind_err (getval data RMC_S ''time'') (\<lambda>t.
       bind_err (case t of None \<Rightarrow> Inl TypeError | Some ts \<Rightarrow> Inr ts) (\<lambda>ts.
       bind_err (getval data GGA_S ''lat'') (\<lambda>la.
       bind_err (getval data GGA_S ''NS'') (\<lambda>nsv.
       bind_err (degmin_deg pfloat la nsv) (\<lambda>latv.
       bind_err (getval data GGA_S ''lon'') (\<lambda>lo.
       bind_err (getval data GGA_S ''EW'') (\<lambda>ew.
       bind_err (degmin_deg pfloat lo ew) (\<lambda>lonv.
       bind_err (getval data GGA_S ''quality'') (\<lambda>q.
       bind_err (getval data GGA_S ''nsats'') (\<lambda>nsat.
       bind_err (getval data GGA_S ''HDOP'') (\<lambda>h.
       bind_err (getval data GGA_S ''alt'') (\<lambda>a.
         Inr (RetBool True,
              self\<lparr>hour := str2int pint (Some (take 2 ts)) 0,
                   min_fld := str2int pint (Some (take 2 (drop 2 ts))) 0,
                   sec := str2float pfloat (Some (drop 4 ts)) 0,
                   lat := latv,
                   lon := lonv,
                   quality := str2int pint q 0,
                   nsats := str2int pint nsat 0,
                   hdop := str2float pfloat h 99.99,
                   alt := str2float pfloat a 0\<rparr>)))))))))))))
     else Inr (RetBool False, self))"

text \<open>\<open>GpsDecode.qualstr\<close>.\<close>

definition qualstr :: "GpsDecode \<Rightarrow> error + string" where
  "qualstr self =
     (if quality self < int (length qualstrs) then py_nth qualstrs (quality self)
      else Inr ''?'')"

section \<open>ntripdecoder.py: the source table\<close>

text \<open>
  \<open>get_sourcetable_name_pos\<close>: country, name, latitude and longitude of a line, or the
  tuple \<open>"", "", 0, 0\<close> when the line has fewer than 11 fields or \<open>float\<close> raises
  (the \<open>except\<close> catches everything).
\<close>

definition get_sourcetable_name_pos ::
  "(string \<Rightarrow> real option) \<Rightarrow> string \<Rightarrow> string \<times> string \<times> real \<times> real" where
  "get_sourcetable_name_pos pfloat line =
     (let data = split_char CHR '';'' line in
      if length data > 10 then
        (case pfloat (data ! 9) of
           None \<Rightarrow> ('''', '''', 0, 0)
         | Some la \<Rightarrow>
            (case pfloat (data ! 10) of
               None \<Rightarrow> ('''', '''', 0, 0)
             | Some lo \<Rightarrow> (data ! 8, data ! 1, la, lo)))
      else ('''', '''', 0, 0))"

text \<open>
  The loop of \<open>get_sourcetable\<close> that fills \<open>self.sources\<close>, a dictionary from the name
  to (country, lat, lon).
\<close>

fun fill_sources ::
  "(string \<Rightarrow> real option) \<Rightarrow> string list \<Rightarrow> (string \<rightharpoonup> string \<times> real \<times> real)
     \<Rightarrow> (string \<rightharpoonup> string \<times> real \<times> real)" where
  "fill_sources pfloat [] sources = sources"
| "fill_sources pfloat (line # rest) sources =
     (case get_sourcetable_name_pos pfloat line of
        (country, name, la, lo) \<Rightarrow> fill_sources pfloat rest (sources(name \<mapsto> (country, la, lo))))"

text \<open>
  \<open>str.upper\<close> is a builtin of Python, defined on all of Unicode: the model takes it
  as the parameter \<open>upper\<close>, as it takes \<open>float\<close>.

  \<open>NtripDecode.get_sourcetable\<close> on the text \<open>table\<close> that \<open>receive_text\<close> returned.
  \<open>country\<close> is \<open>None\<close> or a string, and \<open>if country\<close> is false for both \<open>None\<close> and
  the empty string. The result is \<open>self.sourcelines\<close>, \<open>self.sources\<close> and the number
  returned.
\<close>

definition filter_text :: "(string \<Rightarrow> string) \<Rightarrow> string option \<Rightarrow> string" where
  "filter_text upper country =
     (case country of
        None \<Rightarrow> '';''
      | Some cn \<Rightarrow> if cn \<noteq> [] then '';'' @ upper cn @ '';'' else '';'')"

definition sourcelines_of ::
  "(string \<Rightarrow> string) \<Rightarrow> string \<Rightarrow> string option \<Rightarrow> string list" where
  "sourcelines_of upper table country =
     filter (\<lambda>line. startswith line ''STR;'' \<and> py_in (filter_text upper country) line)
       (split_char (CHR 0x0A) table)"

definition get_sourcetable ::
  "(string \<Rightarrow> string) \<Rightarrow> (string \<Rightarrow> real option) \<Rightarrow> string \<Rightarrow> string option
     \<Rightarrow> string list \<times> (string \<rightharpoonup> string \<times> real \<times> real) \<times> nat" where
  "get_sourcetable upper pfloat table country =
     (let sourcelines = sourcelines_of upper table country in
      (sourcelines, fill_sources pfloat sourcelines Map.empty, length sourcelines))"

subsection \<open>The spec's malformed line\<close>

text \<open>
  A source-table line with fewer than 11 fields, or whose latitude or longitude
  \<open>float\<close> does not parse.
\<close>

definition malformed :: "(string \<Rightarrow> real option) \<Rightarrow> string \<Rightarrow> bool" where
  "malformed pfloat line =
     (length (split_char CHR '';'' line) < 11 \<or>
      pfloat (split_char CHR '';'' line ! 9) = None \<or>
      pfloat (split_char CHR '';'' line ! 10) = None)"

subsection \<open>Sample inputs\<close>

text \<open>
  What \<open>float\<close> returns on the strings it is given in the examples below, what
  \<open>str.upper\<close> returns on a string of ASCII characters (the examples give it no
  other), and a source table of one malformed and one well-formed line.
\<close>

definition pf_sample :: "string \<Rightarrow> real option" where
  "pf_sample s =
     (if s = ''40.0'' then Some 40 else if s = ''-75.0'' then Some (- 75)
      else if s = ''51.0'' then Some 51 else if s = ''0.0'' then Some 0
      else if s = ''48'' then Some 48 else if s = ''07.038'' then Some 7.038
      else None)"

definition ascii_upper_char :: "char \<Rightarrow> char" where
  "ascii_upper_char c =
     (case map_of (zip ''abcdefghijklmnopqrstuvwxyz'' ''ABCDEFGHIJKLMNOPQRSTUVWXYZ'') c of
        Some u \<Rightarrow> u
      | None \<Rightarrow> c)"

definition ascii_upper :: "string \<Rightarrow> string" where
  "ascii_upper s = map ascii_upper_char s"

definition table_sample :: string where
  "table_sample = ''STR;X'' @ [CHR 0x0A] @ ''STR;M1;a;b;c;d;e;f;USA;40.0;-75.0''"

section \<open>Reads that stay in range\<close>

lemma length_CRC24_TABLE: "length CRC24_TABLE = 256"
  by (simp add: CRC24_TABLE_def)

lemma crc_index_bound: "unat (b::byte) XOR (drop_bit 16 val AND 0xff) < 256"
proof -
  have "unat b < 2 ^ 8" using unsigned_less [of b] by simp
  then have a: "take_bit 8 (unat b) = unat b" by (simp add: take_bit_nat_eq_self_iff)
  have "(0xff::nat) = mask 8" by (simp add: mask_eq_exp_minus_1)
  then have b: "drop_bit 16 val AND (0xff::nat) = take_bit 8 (drop_bit 16 val)"
    by (simp add: take_bit_eq_mask)
  have "unat b XOR (drop_bit 16 val AND 0xff) = take_bit 8 (unat b XOR drop_bit 16 val)"
    using a b by (simp add: take_bit_xor)
  also have "\<dots> < 2 ^ 8" by (rule take_bit_nat_less_exp)
  finally show ?thesis by simp
qed

lemma py_nth_in_range: "i < length xs \<Longrightarrow> py_nth xs (int i) = Inr (xs ! i)"
  by (simp add: py_nth_def Let_def)

lemma table_read:
  "py_nth CRC24_TABLE (int (unat (b::byte) XOR (drop_bit 16 val AND 0xff)))
   = Inr (CRC24_TABLE ! (unat b XOR (drop_bit 16 val AND 0xff)))"
  by (rule py_nth_in_range) (simp only: length_CRC24_TABLE crc_index_bound)

lemma crc24_loop_total: "crc24_loop val bs = Inr (foldl crc24_step val bs)"
  by (induction bs arbitrary: val) (simp_all add: table_read crc24_step_def)

lemma crc24_total: "crc24 bs = Inr (foldl crc24_step 0 bs AND 0xffffff)"
  by (simp add: crc24_def crc24_loop_total)

lemma bin_index_range:
  "bin_index xs b = -1 \<or> (0 \<le> bin_index xs b \<and> bin_index xs b < int (length xs))"
  by (induction xs) (auto simp: Let_def)

section \<open>The CRC register\<close>

lemma table_bound_all: "list_all (\<lambda>x. x < 2 ^ 24) CRC24_TABLE"
  by (simp add: CRC24_TABLE_def)

lemma table_bound: "i < 256 \<Longrightarrow> CRC24_TABLE ! i < 2 ^ 24"
  using table_bound_all by (simp add: list_all_length length_CRC24_TABLE)

lemma table_zero: "CRC24_TABLE ! 0 = 0"
  by (simp add: CRC24_TABLE_def)

lemma table_low_all: "list_all (\<lambda>x. x mod 256 \<noteq> 0) (tl CRC24_TABLE)"
  by (simp add: CRC24_TABLE_def)

lemma table_low: 
  assumes "i < 256" "CRC24_TABLE ! i mod 256 = 0" shows "i = 0"
proof (rule ccontr)
  assume "i \<noteq> 0"
  then obtain j where j: "i = Suc j" by (cases i) auto
  have "j < length (tl CRC24_TABLE)" using assms(1) j by (simp add: length_CRC24_TABLE)
  then have "tl CRC24_TABLE ! j mod 256 \<noteq> 0"
    using table_low_all by (simp add: list_all_length)
  moreover have "tl CRC24_TABLE ! j = CRC24_TABLE ! i"
    using j assms(1) by (simp add: nth_tl length_CRC24_TABLE)
  ultimately show False using assms(2) by simp
qed

lemma and_255: "(x::nat) AND 0xff = take_bit 8 x"
proof -
  have "(0xff::nat) = mask 8" by (simp add: mask_eq_exp_minus_1)
  then show ?thesis by (simp add: take_bit_eq_mask)
qed

lemma and_ffffff: "(x::nat) AND 0xffffff = take_bit 24 x"
proof -
  have "(0xffffff::nat) = mask 24" by (simp add: mask_eq_exp_minus_1)
  then show ?thesis by (simp add: take_bit_eq_mask)
qed

lemma step_mask: "take_bit 24 (crc24_step v b) = take_bit 24 (crc24_step (take_bit 24 v) b)"
  by (simp add: crc24_step_def and_255 take_bit_xor take_bit_push_bit drop_bit_take_bit)

lemma foldl_step_mask:
  "take_bit 24 (foldl crc24_step v bs) = take_bit 24 (foldl crc24_step (take_bit 24 v) bs)"
proof (induction bs arbitrary: v)
  case Nil
  show ?case by simp
next
  case (Cons b bs)
  have "take_bit 24 (foldl crc24_step v (b # bs))
      = take_bit 24 (foldl crc24_step (take_bit 24 (crc24_step v b)) bs)"
    using Cons.IH [of "crc24_step v b"] by simp
  also have "\<dots> = take_bit 24 (foldl crc24_step (take_bit 24 (crc24_step (take_bit 24 v) b)) bs)"
    using step_mask [of v b] by simp
  also have "\<dots> = take_bit 24 (foldl crc24_step (take_bit 24 v) (b # bs))"
    using Cons.IH [of "crc24_step (take_bit 24 v) b"] by simp
  finally show ?case .
qed

lemma crc24_eq_val: "crc24 bs = Inr (crc24_val bs)"
  by (simp add: crc24_total crc24_val_def and_ffffff)

lemma crc24_val_less: "crc24_val bs < 2 ^ 24"
  unfolding crc24_val_def by (rule take_bit_nat_less_exp)

lemma crc24_val_snoc: "crc24_val (bs @ [t]) = take_bit 24 (crc24_step (crc24_val bs) t)"
  using step_mask [of "foldl crc24_step 0 bs" t] by (simp add: crc24_val_def)

text \<open>One step on a 24-bit register, in arithmetic.\<close>

lemma step24:
  assumes "v < 2 ^ 24"
  shows "take_bit 24 (crc24_step v t) =
     (v mod 65536) * 256 XOR CRC24_TABLE ! (unat t XOR v div 65536)"
proof -
  have hi: "v div 65536 < 256" using assms by simp
  then have a: "take_bit 8 (drop_bit 16 v) = v div 65536"
    by (simp add: drop_bit_eq_div take_bit_nat_eq_self_iff)
  have "unat t XOR v div 65536 < 256"
    using crc_index_bound [of t v] by (simp add: and_255 a)
  then have b: "take_bit 24 (CRC24_TABLE ! (unat t XOR v div 65536)) = CRC24_TABLE ! (unat t XOR v div 65536)"
    using table_bound by (simp add: take_bit_nat_eq_self_iff)
  show ?thesis
    by (simp add: crc24_step_def and_255 a b take_bit_xor take_bit_push_bit)
       (simp add: push_bit_eq_mult take_bit_eq_mod)
qed

lemma mod_add_mult: "r < n \<Longrightarrow> (a * n + r) mod n = (r::nat)"
  by simp

lemma div_add_mult: "r < n \<Longrightarrow> (a * n + r) div n = (a::nat)"
  by simp

lemma hi3: 
  assumes "b < 256" "c < 256" 
  shows "((a::nat) * 65536 + b * 256 + c) div 65536 = a"
proof -
  have "b * 256 + c < 65536" using assms by simp
  then have "(a * 65536 + (b * 256 + c)) div 65536 = a" by (rule div_add_mult)
  then show ?thesis by (simp only: add.assoc)
qed

lemma lo3: 
  assumes "b < 256" "c < 256" 
  shows "((a::nat) * 65536 + b * 256 + c) mod 65536 = b * 256 + c"
proof -
  have "b * 256 + c < 65536" using assms by simp
  then have "(a * 65536 + (b * 256 + c)) mod 65536 = b * 256 + c" by (rule mod_add_mult)
  then show ?thesis by (simp only: add.assoc)
qed

lemma recompose: "(v::nat) div 65536 = a \<Longrightarrow> v mod 65536 = r \<Longrightarrow> v = a * 65536 + r"
  by (metis div_mult_mod_eq)

lemma low_zero: "((x::nat) * 65536 + y * 256) mod 256 = 0"
proof -
  have "x * 65536 + y * 256 = (x * 256 + y) * 256" by simp
  then show ?thesis by (simp only: mod_mult_self2_is_0)
qed

lemma xor_eq_0_nat: "(a::nat) XOR b = 0 \<Longrightarrow> a = b"
proof -
  assume h: "a XOR b = 0"
  have "a = a XOR (b XOR b)" by simp
  also have "\<dots> = (a XOR b) XOR b" by (simp only: xor.assoc)
  also have "\<dots> = b" using h by simp
  finally show ?thesis .
qed

lemma low_byte_xor: "((a::nat) * 256 XOR t) mod 256 = t mod 256"
proof -
  have "take_bit 8 (push_bit 8 a XOR t) = take_bit 8 t"
    by (simp add: take_bit_xor take_bit_push_bit)
  then show ?thesis by (simp add: push_bit_eq_mult take_bit_eq_mod)
qed

lemma index24:
  assumes "v < 2 ^ 24"
  shows "unat (t::byte) XOR v div 65536 < 256"
proof -
  have hi: "v div 65536 < 256" using assms by simp
  then have a: "take_bit 8 (drop_bit 16 v) = v div 65536"
    by (simp add: drop_bit_eq_div take_bit_nat_eq_self_iff)
  show ?thesis
    using crc_index_bound [of t v] by (simp only: and_255 a)
qed

lemma step_fwd:
  assumes "v < 2 ^ 24" "v div 65536 = unat t"
  shows "take_bit 24 (crc24_step v t) = (v mod 65536) * 256"
proof -
  have "unat t XOR v div 65536 = 0" by (simp only: assms(2) xor_self_eq)
  then show ?thesis by (simp only: step24 [OF assms(1)] table_zero xor.comm_neutral)
qed

lemma step_bwd:
  assumes "v < 2 ^ 24" "take_bit 24 (crc24_step v t) mod 256 = 0"
  shows "v div 65536 = unat t"
proof -
  have "CRC24_TABLE ! (unat t XOR v div 65536) mod 256 = 0"
    using assms(2) by (simp only: step24 [OF assms(1)] low_byte_xor)
  then have "unat t XOR v div 65536 = 0" 
    by (rule table_low [OF index24 [OF assms(1)]])
  then show ?thesis by (rule xor_eq_0_nat [symmetric])
qed

lemma unat_byte: "unat (b::byte) < 256"
  using unsigned_less [of b] by simp

lemma times256_cancel: "(x::nat) * 256 = y * 256 \<Longrightarrow> x = y"
  by simp

lemma crc24_val_trailer_bwd:
  assumes z: "crc24_val (body @ [t2, t1, t0]) = 0"
  shows "crc24_val body = unat t2 * 65536 + unat t1 * 256 + unat t0"
proof -
  let ?v0 = "crc24_val body"
  let ?v1 = "crc24_val (body @ [t2])"
  let ?v2 = "crc24_val ((body @ [t2]) @ [t1])"
  let ?v3 = "crc24_val (((body @ [t2]) @ [t1]) @ [t0])"
  have s1: "?v1 = take_bit 24 (crc24_step ?v0 t2)" by (rule crc24_val_snoc)
  have s2: "?v2 = take_bit 24 (crc24_step ?v1 t1)" by (rule crc24_val_snoc)
  have s3: "?v3 = take_bit 24 (crc24_step ?v2 t0)" by (rule crc24_val_snoc)
  have b0: "?v0 < 2 ^ 24" and b1: "?v1 < 2 ^ 24" and b2: "?v2 < 2 ^ 24"
    by (rule crc24_val_less)+
  have z3: "?v3 = 0" using z by simp
  have "take_bit 24 (crc24_step ?v2 t0) mod 256 = 0" using s3 z3 by simp
  then have h2: "?v2 div 65536 = unat t0" by (rule step_bwd [OF b2])
  have "(?v2 mod 65536) * 256 = 0"
    using step_fwd [OF b2 h2] s3 z3 by simp
  then have l2: "?v2 mod 65536 = 0" by simp
  have v2: "?v2 = unat t0 * 65536 + 0 * 256" using recompose [OF h2 l2] by simp
  have "take_bit 24 (crc24_step ?v1 t1) mod 256 = 0"
    using s2 low_zero [of "unat t0" 0] v2 by simp
  then have h1: "?v1 div 65536 = unat t1" by (rule step_bwd [OF b1])
  have "(?v1 mod 65536) * 256 = (unat t0 * 256) * 256"
    using step_fwd [OF b1 h1] s2 v2 by simp
  then have l1: "?v1 mod 65536 = unat t0 * 256" by (rule times256_cancel)
  have v1: "?v1 = unat t1 * 65536 + unat t0 * 256" by (rule recompose [OF h1 l1])
  have "take_bit 24 (crc24_step ?v0 t2) mod 256 = 0"
    using s1 low_zero [of "unat t1" "unat t0"] v1 by simp
  then have h0: "?v0 div 65536 = unat t2" by (rule step_bwd [OF b0])
  have "(?v0 mod 65536) * 256 = (unat t1 * 256 + unat t0) * 256"
    using step_fwd [OF b0 h0] s1 v1 by simp
  then have l0: "?v0 mod 65536 = unat t1 * 256 + unat t0" by (rule times256_cancel)
  show ?thesis using recompose [OF h0 l0] by simp
qed

lemma crc24_val_trailer_fwd:
  assumes v: "crc24_val body = unat t2 * 65536 + unat t1 * 256 + unat t0"
  shows "crc24_val (body @ [t2, t1, t0]) = 0"
proof -
  let ?v0 = "crc24_val body"
  let ?v1 = "crc24_val (body @ [t2])"
  let ?v2 = "crc24_val ((body @ [t2]) @ [t1])"
  let ?v3 = "crc24_val (((body @ [t2]) @ [t1]) @ [t0])"
  have s1: "?v1 = take_bit 24 (crc24_step ?v0 t2)" by (rule crc24_val_snoc)
  have s2: "?v2 = take_bit 24 (crc24_step ?v1 t1)" by (rule crc24_val_snoc)
  have s3: "?v3 = take_bit 24 (crc24_step ?v2 t0)" by (rule crc24_val_snoc)
  have b0: "?v0 < 2 ^ 24" and b1: "?v1 < 2 ^ 24" and b2: "?v2 < 2 ^ 24"
    by (rule crc24_val_less)+
  have u0: "unat t0 < 256" and u1: "unat t1 < 256" and u2: "unat t2 < 256"
    by (rule unat_byte)+
  have z: "(0::nat) < 256" by simp
  have h0: "?v0 div 65536 = unat t2" using hi3 [OF u1 u0] v by simp
  have l0: "?v0 mod 65536 = unat t1 * 256 + unat t0" using lo3 [OF u1 u0] v by simp
  have v1: "?v1 = unat t1 * 65536 + unat t0 * 256 + 0"
    using step_fwd [OF b0 h0] s1 l0 by simp
  have h1: "?v1 div 65536 = unat t1" using hi3 [OF u0 z] v1 by simp
  have l1: "?v1 mod 65536 = unat t0 * 256 + 0" using lo3 [OF u0 z] v1 by simp
  have v2: "?v2 = unat t0 * 65536 + 0 * 256 + 0"
    using step_fwd [OF b1 h1] s2 l1 by simp
  have h2: "?v2 div 65536 = unat t0" using hi3 [OF z z] v2 by simp
  have l2: "?v2 mod 65536 = 0 * 256 + 0" using lo3 [OF z z] v2 by simp
  have "?v3 = 0" using step_fwd [OF b2 h2] s3 l2 by simp
  then show ?thesis by simp
qed

section \<open>The branches of get_msg\<close>

lemma bin_index_nth: "0 \<le> bin_index xs b \<Longrightarrow> xs ! nat (bin_index xs b) = b"
  by (induction xs) (auto simp: Let_def nat_add_distrib split: if_splits)

lemma bin_index_zero: "bin_index xs b = 0 \<longleftrightarrow> xs \<noteq> [] \<and> hd xs = b"
  using bin_index_range [of "tl xs" b] by (cases xs) (auto simp: Let_def)

lemma bin_index_append: "b \<notin> set ps \<Longrightarrow> bin_index (ps @ b # ss) b = int (length ps)"
  by (induction ps) (auto simp: Let_def)

lemma get_msg_cases:
  "get_msg data = Inr
    (let idx = bin_index data RTCM_START; n = length_word data in
     if 3 < idx \<and> data ! nat (idx - 2) = 0xd \<and> data ! nat (idx - 1) = 0xa
     then (take (nat idx) data, drop (nat idx) data, [])
     else if idx = 0 \<and> 2 < length data then
       (if 1024 < n then ([], [], [])
        else if n + 6 \<le> length data then
          (if crc24_val (take (n + 6) data) = 0
           then (take (n + 6) data, drop (n + 6) data, [])
           else ([], [], [''CRC error'']))
        else ([], data, []))
     else if 0 < idx then ([], drop (nat idx) data, [''Extra data''])
     else ([], data, []))"
proof -
  let ?idx = "bin_index data RTCM_START"
  have r: "?idx = -1 \<or> (0 \<le> ?idx \<and> ?idx < int (length data))" by (rule bin_index_range)
  have a: "?idx > 3 \<Longrightarrow> py_nth data (?idx - 2) = Inr (data ! nat (?idx - 2))"
    using r by (simp add: py_nth_def Let_def)
  have b: "?idx > 3 \<Longrightarrow> py_nth data (?idx - 1) = Inr (data ! nat (?idx - 1))"
    using r by (simp add: py_nth_def Let_def)
  have c: "length data > 2 \<Longrightarrow> py_nth data 1 = Inr (data ! 1)"
    by (simp add: py_nth_def Let_def)
  have d: "length data > 2 \<Longrightarrow> py_nth data 2 = Inr (data ! 2)"
    by (simp add: py_nth_def Let_def)
  show ?thesis
    unfolding get_msg_def Let_def
    by (cases "?idx > 3") 
       (auto simp: a b c d crc24_eq_val length_word_def min_def split: bool.splits)
qed

lemma get_msg_returns: "\<exists>d data' out. get_msg data = Inr (d, data', out)"
proof -
  have "\<exists>r. get_msg data = Inr r" by (subst get_msg_cases) (rule exI, rule refl)
  then obtain r where r: "get_msg data = Inr r" ..
  obtain d data' out where "r = (d, data', out)" by (cases r)
  then show ?thesis using r by simp
qed

lemma rr: "receive_rtcm data part = get_msg (append_part data part)"
  by (simp add: receive_rtcm_def)

lemma be24_3: "be24 [a, b, c] = unat a * 65536 + unat b * 256 + unat c"
  by (simp add: be24_def)

lemma list3: "length xs = 3 \<Longrightarrow> \<exists>a b c. xs = [a, b, c]"
  by (auto simp: length_Suc_conv eval_nat_numeral)

lemma crc24_residual_iff:
  assumes "3 \<le> length d"
  shows "crc24 d = Inr 0 \<longleftrightarrow>
         crc24 (take (length d - 3) d) = Inr (be24 (drop (length d - 3) d))"
proof -
  have "length (drop (length d - 3) d) = 3" using assms by simp
  then obtain a b c where t: "drop (length d - 3) d = [a, b, c]" using list3 by blast
  have d: "d = take (length d - 3) d @ [a, b, c]"
    using append_take_drop_id [of "length d - 3" d] t by simp
  have "crc24_val d = 0 \<longleftrightarrow> crc24_val (take (length d - 3) d) = be24 [a, b, c]"
    using crc24_val_trailer_bwd [of "take (length d - 3) d" a b c]
          crc24_val_trailer_fwd [of "take (length d - 3) d" a b c] d
    by (auto simp only: be24_3)
  then show ?thesis by (simp add: crc24_eq_val t)
qed

lemma bin_index_pos_hd: "0 < bin_index xs b \<Longrightarrow> xs \<noteq> [] \<and> hd xs \<noteq> b"
  by (cases xs) (auto split: if_splits)

lemma length_word_take: "2 < m \<Longrightarrow> length_word (take m xs) = length_word xs"
  by (simp add: length_word_def)

lemma declared_len10_eq:
  assumes "length_word d < 1024"
  shows "declared_len10 d = length_word d"
proof -
  have "unat (d ! 1) * 256 + unat (d ! 2) < 1024"
    using assms by (simp add: length_word_def push_bit_eq_mult)
  then have "unat (d ! 1) < 4" by arith
  then have "take_bit 2 (unat (d ! 1)) = unat (d ! 1)"
    by (simp add: take_bit_nat_eq_self_iff)
  moreover have "unat (d ! 1) AND 3 = take_bit 2 (unat (d ! 1))"
  proof -
    have "(3::nat) = mask 2" by (simp add: mask_eq_exp_minus_1)
    then show ?thesis by (simp add: take_bit_eq_mask)
  qed
  ultimately show ?thesis by (simp add: declared_len10_def length_word_def)
qed

lemma step_zero: "take_bit 24 (crc24_step 0 0) = 0"
  by (simp add: crc24_step_def table_zero)

lemma crc24_val_zeros:
  "crc24_val bs = 0 \<Longrightarrow> crc24_val (bs @ replicate n 0) = 0"
proof (induction n)
  case 0
  then show ?case by simp
next
  case (Suc n)
  have "crc24_val (bs @ replicate (Suc n) 0) = crc24_val ((bs @ replicate n 0) @ [0])"
    by (simp add: replicate_append_same)
  also have "\<dots> = take_bit 24 (crc24_step (crc24_val (bs @ replicate n 0)) 0)"
    by (rule crc24_val_snoc)
  also have "\<dots> = 0" using Suc by (simp only: step_zero)
  finally show ?case .
qed

lemma get_msg_whole:
  assumes "f \<noteq> []" "hd f = RTCM_START" "length f = length_word f + 6"
    and "length_word f \<le> 1024" "crc24_val f = 0"
  shows "get_msg f = Inr (f, [], [])"
proof -
  have "bin_index f RTCM_START = 0" using assms(1,2) by (simp add: bin_index_zero)
  then show ?thesis using assms(3,4,5) by (simp add: get_msg_cases Let_def)
qed

section \<open>The claims on the stream reassembler\<close>

text \<open>
  C1, as the code has it. A call of \<open>receive_rtcm\<close> (and so of \<open>get_msg\<close>, which is the
  call with nothing polled) that returns a message starting with the preamble \<open>0xD3\<close>
  returns exactly \<open>n + 6\<close> bytes, where \<open>n\<close> is the 16-bit big-endian word in bytes 1
  and 2 of that message; \<open>n\<close> is at most 1024 and, whenever it is below 1024, it is
  the 10-bit declared length, so that the message has declared length + 6 bytes. The
  CRC24 of the whole message is 0 and, which is the same for this table, the big-endian
  value of its last three bytes is the CRC24 of the bytes before them. Whenever the
  accumulator starts with a complete candidate frame whose CRC24 is not 0, the call
  returns the empty message and leaves the accumulator empty.
\<close>

theorem C1_emitted_frames_pass_crc:
  assumes "receive_rtcm data part = Inr (d, data', out)"
  shows "(d \<noteq> [] \<and> hd d = RTCM_START \<longrightarrow>
            length d = length_word d + 6 \<and> length_word d \<le> 1024 \<and>
            (length_word d < 1024 \<longrightarrow> length d = declared_len10 d + 6) \<and>
            crc24 d = Inr 0 \<and>
            crc24 (take (length d - 3) d) = Inr (be24 (drop (length d - 3) d))) \<and>
         (bin_index (append_part data part) RTCM_START = 0 \<and>
          2 < length (append_part data part) \<and>
          length_word (append_part data part) \<le> 1024 \<and>
          length_word (append_part data part) + 6 \<le> length (append_part data part) \<and>
          crc24 (take (length_word (append_part data part) + 6) (append_part data part)) \<noteq> Inr 0
          \<longrightarrow> d = [] \<and> data' = [])"
proof -
  let ?acc = "append_part data part"
  let ?idx = "bin_index ?acc RTCM_START"
  let ?n = "length_word ?acc"
  have g: "get_msg ?acc = Inr (d, data', out)" using assms by (simp add: rr)
  have frame: "length d = length_word d + 6 \<and> length_word d \<le> 1024 \<and>
      (length_word d < 1024 \<longrightarrow> length d = declared_len10 d + 6) \<and> crc24 d = Inr 0
      \<and> crc24 (take (length d - 3) d) = Inr (be24 (drop (length d - 3) d))"
    if nonempty: "d \<noteq> []" and pre: "hd d = RTCM_START"
  proof -
    have not_text: "\<not> 3 < ?idx"
    proof
      assume i: "3 < ?idx"
      then have "0 < ?idx" by simp
      then have "?acc \<noteq> [] \<and> hd ?acc \<noteq> RTCM_START" by (rule bin_index_pos_hd)
      moreover have "d = take (nat ?idx) ?acc \<or> d = []"
        using g i by (auto simp: get_msg_cases Let_def split: if_splits)
      ultimately show False using nonempty pre i by (cases ?acc) (auto simp: take_Cons')
    qed
    have v: "?idx = 0 \<and> 2 < length ?acc \<and> ?n \<le> 1024 \<and> ?n + 6 \<le> length ?acc
        \<and> crc24_val (take (?n + 6) ?acc) = 0 \<and> d = take (?n + 6) ?acc"
      using g nonempty not_text by (auto simp: get_msg_cases Let_def split: if_splits)
    then have len: "length d = ?n + 6" by simp
    have lw: "length_word d = ?n" using v by (simp add: length_word_take)
    have crc: "crc24 d = Inr 0" using v by (simp add: crc24_eq_val)
    have "3 \<le> length d" using len by simp
    then show ?thesis using crc24_residual_iff [of d] crc len lw v declared_len10_eq [of d]
      by simp
  qed
  have scrub: "d = [] \<and> data' = []"
    if "?idx = 0 \<and> 2 < length ?acc \<and> ?n \<le> 1024 \<and> ?n + 6 \<le> length ?acc \<and>
        crc24 (take (?n + 6) ?acc) \<noteq> Inr 0"
    using g that by (auto simp: get_msg_cases Let_def crc24_eq_val split: if_splits)
  show ?thesis using frame scrub by blast
qed

text \<open>Unfolding the model on a concrete accumulator.\<close>

lemmas run_msg = receive_rtcm_def append_part_def get_msg_def py_nth_def crc24_def CRC24_TABLE_def
  RTCM_START_def Let_def

text \<open>
  The null frame \<open>D3 00 00 47 EA 4B\<close> followed by two more bytes is emitted and the two
  bytes are kept; the same frame with its last byte changed is dropped with everything
  after it.
\<close>

theorem C1_witness:
  "receive_rtcm [] (Some [0xd3, 0, 0, 0x47, 0xea, 0x4b, 1, 2])
     = Inr ([0xd3, 0, 0, 0x47, 0xea, 0x4b], [1, 2], []) \<and>
   length [0xd3, 0, 0, 0x47, 0xea, 0x4b :: byte]
     = length_word [0xd3, 0, 0, 0x47, 0xea, 0x4b] + 6 \<and>
   length [0xd3, 0, 0, 0x47, 0xea, 0x4b :: byte]
     = declared_len10 [0xd3, 0, 0, 0x47, 0xea, 0x4b] + 6 \<and>
   crc24 [0xd3, 0, 0, 0x47, 0xea, 0x4b] = Inr 0 \<and>
   crc24 [0xd3, 0, 0] = Inr (be24 [0x47, 0xea, 0x4b]) \<and>
   receive_rtcm [0xd3, 0, 0] (Some [0x47, 0xea, 0x4c, 9]) = Inr ([], [], [''CRC error''])"
proof -
  have h1: "receive_rtcm [] (Some [0xd3, 0, 0, 0x47, 0xea, 0x4b, 1, 2])
     = Inr ([0xd3, 0, 0, 0x47, 0xea, 0x4b], [1, 2], [])"
    by (simp add: run_msg)
  have h2: "receive_rtcm [0xd3, 0, 0] (Some [0x47, 0xea, 0x4c, 9]) = Inr ([], [], [''CRC error''])"
    by (simp add: run_msg)
  show ?thesis
    using C1_emitted_frames_pass_crc [OF h1] C1_emitted_frames_pass_crc [OF h2] h1 h2
    by (simp add: RTCM_START_def length_word_def declared_len10_def)
qed

text \<open>
  A message whose length word is exactly \<open>0x0400\<close>: the six bytes
  \<open>D3 04 00 5B 9B 90\<close> (the CRC24 of the first three is \<open>5B9B90\<close>) followed by 1024
  zero bytes have CRC24 0 and are returned whole, 1030 bytes, while the 10-bit declared
  length of the message is 0.
\<close>

theorem C1_counterexample:
  "get_msg ([0xd3, 0x04, 0x00, 0x5b, 0x9b, 0x90] @ replicate 1024 0)
     = Inr ([0xd3, 0x04, 0x00, 0x5b, 0x9b, 0x90] @ replicate 1024 0, [], []) \<and>
   hd ([0xd3, 0x04, 0x00, 0x5b, 0x9b, 0x90] @ replicate 1024 0) = RTCM_START \<and>
   length ([0xd3, 0x04, 0x00, 0x5b, 0x9b, 0x90 :: byte] @ replicate 1024 0) = 1030 \<and>
   declared_len10 ([0xd3, 0x04, 0x00, 0x5b, 0x9b, 0x90] @ replicate 1024 0) = 0"
proof -
  let ?f = "[0xd3, 0x04, 0x00, 0x5b, 0x9b, 0x90 :: byte] @ replicate 1024 0"
  have "crc24 [0xd3, 0x04, 0x00, 0x5b, 0x9b, 0x90] = Inr 0"
    by (simp add: crc24_def py_nth_def CRC24_TABLE_def)
  then have "crc24_val [0xd3, 0x04, 0x00, 0x5b, 0x9b, 0x90] = 0"
    by (simp add: crc24_eq_val)
  then have crc: "crc24_val ?f = 0" by (rule crc24_val_zeros)
  have len: "length ?f = 1030" by simp
  have w: "length_word ?f = 1024" by (simp add: length_word_def)
  have h: "hd ?f = RTCM_START" by (simp add: RTCM_START_def)
  have "?f \<noteq> []" by simp
  then have "get_msg ?f = Inr (?f, [], [])"
    using h _ _ crc by (rule get_msg_whole) (simp_all only: len w)
  moreover have "declared_len10 ?f = 0" by (simp add: declared_len10_def)
  ultimately show ?thesis using len h by (intro conjI)
qed

text \<open>
  C3, as the code has it. With the preamble at offset 0 and at least three bytes held,
  \<open>get_msg\<close> reads bytes 1 and 2 as one 16-bit big-endian word, the six bits the spec
  calls reserved included; when that word exceeds 1024 the call returns the empty
  message and leaves the accumulator empty, printing nothing.
\<close>

theorem C3_length_word_over_1024:
  assumes "data \<noteq> []" "hd data = RTCM_START" "3 \<le> length data"
    and "1024 < 256 * unat (data ! 1) + unat (data ! 2)"
  shows "get_msg data = Inr ([], [], [])"
proof -
  have i: "bin_index data RTCM_START = 0" using assms by (simp add: bin_index_zero)
  have n: "1024 < length_word data" using assms(4) by (simp add: length_word_def push_bit_eq_mult)
  show ?thesis using i n assms(3) by (simp add: get_msg_cases Let_def)
qed

text \<open>Bytes \<open>04 01\<close> give the word 1025.\<close>

theorem C3_witness:
  "get_msg [0xd3, 0x04, 0x01, 0xaa] = Inr ([], [], []) \<and>
   1024 < 256 * unat ([0xd3, 0x04, 0x01, 0xaa :: byte] ! 1) + unat ([0xd3, 0x04, 0x01, 0xaa :: byte] ! 2)"
  using C3_length_word_over_1024 [of "[0xd3, 0x04, 0x01, 0xaa]"]
  by (simp add: RTCM_START_def)

text \<open>
  The length read is not the 10-bit field: in \<open>D3 FC 00 32 C2 4F\<close> the 10-bit length is
  0 and the six bytes are a complete frame with CRC24 0, yet the word read is
  \<open>0xFC00\<close> and the accumulator is discarded.
\<close>

theorem C3_counterexample:
  "declared_len10 [0xd3, 0xfc, 0x00, 0x32, 0xc2, 0x4f] = 0 \<and>
   length_word [0xd3, 0xfc, 0x00, 0x32, 0xc2, 0x4f] = 0xfc00 \<and>
   crc24 [0xd3, 0xfc, 0x00, 0x32, 0xc2, 0x4f] = Inr 0 \<and>
   get_msg [0xd3, 0xfc, 0x00, 0x32, 0xc2, 0x4f] = Inr ([], [], [])"
  by (simp add: run_msg declared_len10_def length_word_def)

text \<open>
  C4, as the code has it. Let the first preamble byte stand at a positive offset, after
  the bytes \<open>pre\<close>. If \<open>pre\<close> has more than three bytes and ends in CR LF, \<open>get_msg\<close>
  returns \<open>pre\<close> and keeps the accumulator from the preamble on. Otherwise (no CR LF
  before the preamble, or an offset of 1, 2 or 3) it returns the empty message, prints
  \<open>Extra data\<close> and keeps the accumulator from the preamble on.
\<close>

theorem C4_text_before_preamble:
  assumes "RTCM_START \<notin> set pre" "pre \<noteq> []"
  shows "get_msg (pre @ RTCM_START # rest) = Inr
           (if 3 < length pre \<and> pre ! (length pre - 2) = 0xd \<and> pre ! (length pre - 1) = 0xa
            then (pre, RTCM_START # rest, [])
            else ([], RTCM_START # rest, [''Extra data'']))"
proof -
  let ?data = "pre @ RTCM_START # rest"
  have i: "bin_index ?data RTCM_START = int (length pre)"
    using assms(1) by (rule bin_index_append)
  have p: "0 < length pre" using assms(2) by simp
  have a: "?data ! (length pre - 2) = pre ! (length pre - 2)" if "3 < length pre"
  proof -
    have "length pre - 2 < length pre" using that by arith
    then show ?thesis by (simp only: nth_append if_True)
  qed
  have b: "?data ! (length pre - 1) = pre ! (length pre - 1)" if "3 < length pre"
  proof -
    have "length pre - 1 < length pre" using that by arith
    then show ?thesis by (simp only: nth_append if_True)
  qed
  have c: "nat (int (length pre) - 2) = length pre - 2" "nat (int (length pre) - 1) = length pre - 1"
    by simp_all
  show ?thesis
  proof (cases "3 < length pre")
    case True
    then show ?thesis using p a [OF True] b [OF True] by (auto simp add: get_msg_cases Let_def i c)
  next
    case False
    then show ?thesis using p by (auto simp add: get_msg_cases Let_def i c)
  qed
qed

text \<open>\<open>OK\<close> CR LF before a preamble is returned as text; \<open>OK\<close> CR CR is dropped.\<close>

theorem C4_witness:
  "get_msg [0x4f, 0x4b, 0x0d, 0x0a, 0xd3, 0x00] = Inr ([0x4f, 0x4b, 0x0d, 0x0a], [0xd3, 0x00], []) \<and>
   get_msg [0x4f, 0x4b, 0x0d, 0x0d, 0xd3, 0x00] = Inr ([], [0xd3, 0x00], [''Extra data''])"
  using C4_text_before_preamble [of "[0x4f, 0x4b, 0x0d, 0x0a]" "[0x00]"]
        C4_text_before_preamble [of "[0x4f, 0x4b, 0x0d, 0x0d]" "[0x00]"]
  by (simp add: RTCM_START_def)

text \<open>
  CR LF immediately followed by the preamble, at offset 2: the guard \<open>idx > 3\<close> fails,
  so the two bytes are dropped and nothing is returned.
\<close>

theorem C4_counterexample:
  "bin_index [0x0d, 0x0a, 0xd3] RTCM_START = 2 \<and>
   get_msg [0x0d, 0x0a, 0xd3] = Inr ([], [0xd3], [''Extra data''])"
  by (simp add: run_msg)

text \<open>
  C5, as the code has it. Let \<open>f\<close> be a frame that is valid as \<open>get_msg\<close> reads it: it
  starts with the preamble, the 16-bit word in its bytes 1 and 2 (reserved bits
  included) is at most 1024, it has exactly that word + 6 bytes and its CRC24 is 0.
  Starting from an empty accumulator, deliver \<open>f\<close> in two polls, split before any of
  its bytes (\<open>k\<close> is the number of bytes in the first poll, so the second poll carries
  at least one byte; with \<open>k = 0\<close> the first poll is empty). The first call returns
  nothing and keeps the bytes it got, the second call returns exactly \<open>f\<close> and leaves
  the accumulator empty, and that is what one call returns when \<open>f\<close> arrives in a
  single poll.
\<close>

theorem C5_split_frame:
  assumes "f \<noteq> []" "hd f = RTCM_START" "length f = length_word f + 6"
    and "length_word f \<le> 1024" "crc24 f = Inr 0" and k: "k < length f"
  shows "receive_rtcm [] (Some (take k f)) = Inr ([], take k f, []) \<and>
         receive_rtcm (take k f) (Some (drop k f)) = Inr (f, [], []) \<and>
         receive_rtcm [] (Some f) = Inr (f, [], [])"
proof -
  have crc: "crc24_val f = 0" using assms(5) by (simp add: crc24_eq_val)
  have whole: "get_msg f = Inr (f, [], [])"
  proof -
    have "bin_index f RTCM_START = 0" using assms(1,2) by (simp add: bin_index_zero)
    then show ?thesis using assms(3,4) crc by (simp add: get_msg_cases Let_def)
  qed
  have part: "get_msg (take k f) = Inr ([], take k f, [])"
  proof (cases "k = 0")
    case True
    then show ?thesis by (simp add: get_msg_cases Let_def)
  next
    case False
    then have "take k f \<noteq> [] \<and> hd (take k f) = RTCM_START"
      using assms(1,2) by (cases f) (auto simp: take_Cons')
    then have i: "bin_index (take k f) RTCM_START = 0" by (simp add: bin_index_zero)
    have len: "length (take k f) = k" using k by simp
    show ?thesis
    proof (cases "2 < k")
      case True
      then have "length_word (take k f) = length_word f" by (rule length_word_take)
      then show ?thesis using i len k assms(3,4) by (simp add: get_msg_cases Let_def)
    next
      case False
      then show ?thesis using i len by (simp add: get_msg_cases Let_def)
    qed
  qed
  have a1: "append_part [] (Some (take k f)) = take k f" by (simp add: append_part_def)
  have a2: "append_part (take k f) (Some (drop k f)) = f" using k by (simp add: append_part_def)
  have a3: "append_part [] (Some f) = f" by (simp add: append_part_def)
  show ?thesis by (simp only: rr a1 a2 a3 whole part)
qed

text \<open>
  The frame \<open>D3 00 02 AA BB F3 9E D5\<close>, delivered as its first five bytes and then the
  remaining three.
\<close>

theorem C5_witness:
  "receive_rtcm [] (Some [0xd3, 0, 2, 0xaa, 0xbb]) = Inr ([], [0xd3, 0, 2, 0xaa, 0xbb], []) \<and>
   receive_rtcm [0xd3, 0, 2, 0xaa, 0xbb] (Some [0xf3, 0x9e, 0xd5])
     = Inr ([0xd3, 0, 2, 0xaa, 0xbb, 0xf3, 0x9e, 0xd5], [], []) \<and>
   receive_rtcm [] (Some [0xd3, 0, 2, 0xaa, 0xbb, 0xf3, 0x9e, 0xd5])
     = Inr ([0xd3, 0, 2, 0xaa, 0xbb, 0xf3, 0x9e, 0xd5], [], [])"
proof -
  have c: "crc24 [0xd3, 0, 2, 0xaa, 0xbb, 0xf3, 0x9e, 0xd5] = Inr 0"
    by (simp add: crc24_def py_nth_def CRC24_TABLE_def)
  show ?thesis
    using C5_split_frame [of "[0xd3, 0, 2, 0xaa, 0xbb, 0xf3, 0x9e, 0xd5]" 5] c
    by (simp add: RTCM_START_def length_word_def)
qed

text \<open>
  A frame that is valid by the 10-bit declared length but has reserved bits set:
  \<open>D3 FC 00 32 C2 4F\<close> starts with the preamble, declares length 0, has 6 bytes and
  CRC24 0. It is returned neither when it arrives in one poll nor when it arrives as two
  bytes and then four: the length word read is \<open>0xFC00\<close> and the accumulator is
  discarded.
\<close>

theorem C5_counterexample:
  "hd [0xd3, 0xfc, 0x00, 0x32, 0xc2, 0x4f] = RTCM_START \<and>
   declared_len10 [0xd3, 0xfc, 0x00, 0x32, 0xc2, 0x4f] = 0 \<and>
   length [0xd3, 0xfc, 0x00, 0x32, 0xc2, 0x4f :: byte] = 0 + 6 \<and>
   crc24 [0xd3, 0xfc, 0x00, 0x32, 0xc2, 0x4f] = Inr 0 \<and>
   receive_rtcm [] (Some [0xd3, 0xfc, 0x00, 0x32, 0xc2, 0x4f]) = Inr ([], [], []) \<and>
   receive_rtcm [] (Some [0xd3, 0xfc]) = Inr ([], [0xd3, 0xfc], []) \<and>
   receive_rtcm [0xd3, 0xfc] (Some [0x00, 0x32, 0xc2, 0x4f]) = Inr ([], [], [])"
  by (simp add: run_msg declared_len10_def)

section \<open>Strings and the source table\<close>



lemma name_pos_malformed:
  "malformed pf line \<Longrightarrow> get_sourcetable_name_pos pf line = ('''', '''', 0, 0)"
  by (auto simp: malformed_def get_sourcetable_name_pos_def Let_def split: option.splits)

lemma fill_sources_append:
  "fill_sources pf (xs @ ys) m = fill_sources pf ys (fill_sources pf xs m)"
  by (induction xs arbitrary: m) (simp_all split: prod.splits)

lemma fill_sources_agree:
  "m1 name = m2 name \<Longrightarrow> fill_sources pf ls m1 name = fill_sources pf ls m2 name"
proof (induction ls arbitrary: m1 m2)
  case Nil
  then show ?case by simp
next
  case (Cons l ls)
  obtain c n la lo where g: "get_sourcetable_name_pos pf l = (c, n, la, lo)"
    by (cases "get_sourcetable_name_pos pf l") auto
  have "(m1(n \<mapsto> (c, la, lo))) name = (m2(n \<mapsto> (c, la, lo))) name"
    using Cons.prems by simp
  then have "fill_sources pf ls (m1(n \<mapsto> (c, la, lo))) name
      = fill_sources pf ls (m2(n \<mapsto> (c, la, lo))) name"
    by (rule Cons.IH)
  then show ?case by (simp add: g)
qed

lemma fill_sources_keeps_key:
  "m name \<noteq> None \<Longrightarrow> fill_sources pf ls m name \<noteq> None"
proof (induction ls arbitrary: m)
  case Nil
  then show ?case by simp
next
  case (Cons l ls)
  obtain c n la lo where g: "get_sourcetable_name_pos pf l = (c, n, la, lo)"
    by (cases "get_sourcetable_name_pos pf l") auto
  have "(m(n \<mapsto> (c, la, lo))) name \<noteq> None" using Cons.prems by simp
  then have "fill_sources pf ls (m(n \<mapsto> (c, la, lo))) name \<noteq> None"
    by (rule Cons.IH)
  then show ?case by (simp add: g)
qed


lemma fill_sources_bad:
  assumes "malformed pf bad"
  shows "fill_sources pf (bad # after) m = fill_sources pf after (m([] \<mapsto> ([], 0, 0)))"
  by (simp add: name_pos_malformed [OF assms])

lemma name_pos_wellformed:
  assumes "\<not> malformed pf line"
  shows "fst (snd (get_sourcetable_name_pos pf line)) = split_char CHR '';'' line ! 1"
proof -
  let ?data = "split_char CHR '';'' line"
  have l: "10 < length ?data" using assms by (simp add: malformed_def)
  obtain la where la: "pf (?data ! 9) = Some la" using assms by (auto simp: malformed_def)
  obtain lo where lo: "pf (?data ! 10) = Some lo" using assms by (auto simp: malformed_def)
  show ?thesis using l la lo by (simp add: get_sourcetable_name_pos_def Let_def)
qed

lemma fill_sources_sentinel_stays:
  assumes "m [] = Some ([], 0, 0)"
    and "\<forall>l\<in>set ls. malformed pf l \<or> split_char CHR '';'' l ! 1 \<noteq> []"
  shows "fill_sources pf ls m [] = Some ([], 0, 0)"
  using assms
proof (induction ls arbitrary: m)
  case Nil
  then show ?case by simp
next
  case (Cons l ls)
  obtain c n la lo where g: "get_sourcetable_name_pos pf l = (c, n, la, lo)"
    by (cases "get_sourcetable_name_pos pf l") auto
  have "(m(n \<mapsto> (c, la, lo))) [] = Some ([], 0, 0)"
  proof (cases "malformed pf l")
    case True
    then show ?thesis using g name_pos_malformed [of pf l] by simp
  next
    case False
    then have "split_char CHR '';'' l ! 1 \<noteq> []" using Cons.prems(2) by simp
    then have "n \<noteq> []" using name_pos_wellformed [OF False] g by simp
    then show ?thesis using Cons.prems(1) by simp
  qed
  moreover have "\<forall>l\<in>set ls. malformed pf l \<or> split_char CHR '';'' l ! 1 \<noteq> []"
    using Cons.prems(2) by simp
  ultimately have "fill_sources pf ls (m(n \<mapsto> (c, la, lo))) [] = Some ([], 0, 0)"
    by (rule Cons.IH)
  then show ?case by (simp add: g)
qed

section \<open>The claims on the source table and the NMEA decoder\<close>

text \<open>
  C6, as the code has it. A malformed line among the selected lines does not stop
  \<open>get_sourcetable\<close>: the lines after it are parsed, and under every name but the empty
  one the dictionary is what it would be without the line. The line is not skipped
  altogether: \<open>get_sourcetable_name_pos\<close> returns \<open>"", "", 0, 0\<close> for it, the loop
  stores that under the empty name as \<open>("", 0, 0)\<close>, and the line counts in the number
  returned. In the dictionary returned the empty name always has an entry, and it is
  still \<open>("", 0, 0)\<close> unless a later well-formed line with an empty mount name has
  overwritten it.
\<close>

theorem C6_malformed_line_sentinel:
  assumes bad: "malformed pfloat bad"
    and lines: "sourcelines_of upper table country = before @ bad # after"
  shows "get_sourcetable_name_pos pfloat bad = ([], [], 0, 0) \<and>
         fill_sources pfloat (before @ [bad]) Map.empty [] = Some ([], 0, 0) \<and>
         (\<exists>sources.
           get_sourcetable upper pfloat table country
             = (before @ bad # after, sources, length before + 1 + length after) \<and>
           (\<forall>name. name \<noteq> [] \<longrightarrow>
              sources name = fill_sources pfloat (before @ after) Map.empty name) \<and>
           sources [] \<noteq> None \<and>
           ((\<forall>l\<in>set after. malformed pfloat l \<or> split_char CHR '';'' l ! 1 \<noteq> []) \<longrightarrow>
              sources [] = Some ([], 0, 0)))"
proof -
  let ?m = "fill_sources pfloat before Map.empty"
  let ?m' = "?m([] \<mapsto> ([], 0, 0))"
  let ?s = "fill_sources pfloat (before @ bad # after) Map.empty"
  have sent: "get_sourcetable_name_pos pfloat bad = ([], [], 0, 0)"
    using bad by (rule name_pos_malformed)
  have "fill_sources pfloat (before @ [bad]) Map.empty = fill_sources pfloat [] ?m'"
    by (simp only: fill_sources_append fill_sources_bad [OF bad])
  then have stored: "fill_sources pfloat (before @ [bad]) Map.empty [] = Some ([], 0, 0)"
    by simp
  have step: "?s = fill_sources pfloat after ?m'"
    by (simp only: fill_sources_append fill_sources_bad [OF bad])
  have agree: "?s name = fill_sources pfloat (before @ after) Map.empty name"
    if "name \<noteq> []" for name
  proof -
    have "?m' name = ?m name" using that by simp
    then have a: "fill_sources pfloat after ?m' name = fill_sources pfloat after ?m name"
      by (rule fill_sources_agree)
    have "?s name = fill_sources pfloat after ?m' name" by (simp only: step)
    also have "\<dots> = fill_sources pfloat after ?m name" by (rule a)
    also have "\<dots> = fill_sources pfloat (before @ after) Map.empty name"
      by (simp only: fill_sources_append)
    finally show ?thesis .
  qed
  have m': "?m' [] = Some ([], 0, 0)" by simp
  then have "?m' [] \<noteq> None" by simp
  then have "fill_sources pfloat after ?m' [] \<noteq> None"
    by (rule fill_sources_keeps_key)
  then have key: "?s [] \<noteq> None" by (simp only: step simp_thms)
  have stays: "?s [] = Some ([], 0, 0)"
    if "\<forall>l\<in>set after. malformed pfloat l \<or> split_char CHR '';'' l ! 1 \<noteq> []"
  proof -
    have "fill_sources pfloat after ?m' [] = Some ([], 0, 0)"
      using m' that by (rule fill_sources_sentinel_stays)
    then show ?thesis by (simp only: step)
  qed
  have res: "get_sourcetable upper pfloat table country
          = (before @ bad # after, ?s, length before + 1 + length after)"
    by (simp add: get_sourcetable_def lines Let_def)
  have all: "\<forall>name. name \<noteq> [] \<longrightarrow>
      ?s name = fill_sources pfloat (before @ after) Map.empty name"
    using agree by simp
  have ex: "\<exists>sources.
           get_sourcetable upper pfloat table country
             = (before @ bad # after, sources, length before + 1 + length after) \<and>
           (\<forall>name. name \<noteq> [] \<longrightarrow>
              sources name = fill_sources pfloat (before @ after) Map.empty name) \<and>
           sources [] \<noteq> None \<and>
           ((\<forall>l\<in>set after. malformed pfloat l \<or> split_char CHR '';'' l ! 1 \<noteq> []) \<longrightarrow>
              sources [] = Some ([], 0, 0))"
  proof (intro exI conjI impI)
    show "get_sourcetable upper pfloat table country
          = (before @ bad # after, ?s, length before + 1 + length after)" by (rule res)
    show "\<forall>name. name \<noteq> [] \<longrightarrow>
      ?s name = fill_sources pfloat (before @ after) Map.empty name" by (rule all)
    show "?s [] \<noteq> None" by (rule key)
    show "?s [] = Some ([], 0, 0)"
      if "\<forall>l\<in>set after. malformed pfloat l \<or> split_char CHR '';'' l ! 1 \<noteq> []"
      using that by (rule stays)
  qed
  show ?thesis using sent stored ex by (intro conjI)
qed

text \<open>
  A table of the malformed line \<open>STR;X\<close> and a well-formed line for \<open>M1\<close>: \<open>M1\<close> gets
  its entry, the empty name maps to \<open>("", 0, 0)\<close>, and 2 is returned.
\<close>

theorem C6_witness:
  "malformed pf_sample ''STR;X'' \<and>
   sourcelines_of ascii_upper table_sample None
     = [''STR;X'', ''STR;M1;a;b;c;d;e;f;USA;40.0;-75.0''] \<and>
   get_sourcetable_name_pos pf_sample ''STR;X'' = ([], [], 0, 0) \<and>
   fst (snd (get_sourcetable ascii_upper pf_sample table_sample None)) ''M1''
     = Some (''USA'', 40, - 75) \<and>
   fst (snd (get_sourcetable ascii_upper pf_sample table_sample None)) [] = Some ([], 0, 0) \<and>
   snd (snd (get_sourcetable ascii_upper pf_sample table_sample None)) = 2"
proof -
  have m: "malformed pf_sample ''STR;X''" by (simp add: malformed_def)
  have l: "sourcelines_of ascii_upper table_sample None
      = [] @ ''STR;X'' # [''STR;M1;a;b;c;d;e;f;USA;40.0;-75.0'']"
    by (simp add: sourcelines_of_def filter_text_def table_sample_def)
  have later: "\<forall>l\<in>set [''STR;M1;a;b;c;d;e;f;USA;40.0;-75.0''].
      malformed pf_sample l \<or> split_char CHR '';'' l ! 1 \<noteq> []"
    by simp
  obtain sources where
    g: "get_sourcetable ascii_upper pf_sample table_sample None
          = ([] @ ''STR;X'' # [''STR;M1;a;b;c;d;e;f;USA;40.0;-75.0''], sources,
             length ([] :: string list) + 1 + length [''STR;M1;a;b;c;d;e;f;USA;40.0;-75.0''])"
    and a: "\<forall>name. name \<noteq> [] \<longrightarrow> sources name
          = fill_sources pf_sample ([] @ [''STR;M1;a;b;c;d;e;f;USA;40.0;-75.0'']) Map.empty name"
    and k: "(\<forall>l\<in>set [''STR;M1;a;b;c;d;e;f;USA;40.0;-75.0''].
               malformed pf_sample l \<or> split_char CHR '';'' l ! 1 \<noteq> []) \<longrightarrow>
            sources [] = Some ([], 0, 0)"
    and sent: "get_sourcetable_name_pos pf_sample ''STR;X'' = ([], [], 0, 0)"
    using C6_malformed_line_sentinel [OF m l] by blast
  have e: "sources [] = Some ([], 0, 0)" using k later by (rule mp)
  have "sources ''M1''
      = fill_sources pf_sample ([] @ [''STR;M1;a;b;c;d;e;f;USA;40.0;-75.0'']) Map.empty ''M1''"
    using a by simp
  also have "\<dots> = Some (''USA'', 40, - 75)"
    by (simp add: get_sourcetable_name_pos_def pf_sample_def)
  finally have s: "sources ''M1'' = Some (''USA'', 40, - 75)" .
  show ?thesis using m l g s e sent by simp
qed

text \<open>
  The table of the single line \<open>STR;X\<close>: the dictionary is not empty, it maps the empty
  name to \<open>("", 0, 0)\<close>.
\<close>

theorem C6_counterexample:
  "fst (snd (get_sourcetable ascii_upper pf_sample ''STR;X'' None)) [] = Some ([], 0, 0) \<and>
   dom (fst (snd (get_sourcetable ascii_upper pf_sample ''STR;X'' None))) = {[]}"
  by (simp add: get_sourcetable_def sourcelines_of_def filter_text_def Let_def
        get_sourcetable_name_pos_def)




text \<open>
  C9, as the code has it. \<open>qualstr\<close> returns the entry of \<open>qualstrs\<close> at the quality code
  when the code is a valid index (0 to 6, or -7 to -1 counted from the end, as Python
  indexes), and the string \<open>?\<close> for every code from 7 on.
\<close>

theorem C9_qualstr_question_mark:
  "(0 \<le> quality self \<and> quality self < 7 \<longrightarrow>
      qualstr self = Inr (qualstrs ! nat (quality self))) \<and>
   (- 7 \<le> quality self \<and> quality self < 0 \<longrightarrow>
      qualstr self = Inr (qualstrs ! nat (quality self + 7))) \<and>
   (7 \<le> quality self \<longrightarrow> qualstr self = Inr ''?'')"
  by (simp add: qualstr_def qualstrs_def py_nth_def)

text \<open>Codes 4, -1 and 9.\<close>

theorem C9_witness:
  "qualstr (GpsDecode_init\<lparr>quality := 4\<rparr>) = Inr ''RTK fix'' \<and>
   qualstr (GpsDecode_init\<lparr>quality := - 1\<rparr>) = Inr ''Estimate'' \<and>
   qualstr (GpsDecode_init\<lparr>quality := 9\<rparr>) = Inr ''?''"
  using C9_qualstr_question_mark [of "GpsDecode_init\<lparr>quality := 4\<rparr>"]
        C9_qualstr_question_mark [of "GpsDecode_init\<lparr>quality := - 1\<rparr>"]
        C9_qualstr_question_mark [of "GpsDecode_init\<lparr>quality := 9\<rparr>"]
  by (simp add: qualstrs_def)

text \<open>Code 7 is out of range and gives \<open>?\<close>, not \<open>unknown\<close>.\<close>

theorem C9_counterexample:
  "qualstr (GpsDecode_init\<lparr>quality := 7\<rparr>) = Inr ''?'' \<and>
   qualstr (GpsDecode_init\<lparr>quality := 7\<rparr>) \<noteq> Inr ''unknown''"
  by (simp add: qualstr_def qualstrs_def)

text \<open>
  C2 at a failing input. The GGA sentence \<open>$GPGGA,123456,4807.038*4F\<close> (its checksum is
  right) has three fields: the latitude is there, the hemisphere is missing, so
  \<open>getval\<close> gives \<open>None\<close> for it and \<open>None in "NSEW"\<close> in \<open>degmin_deg\<close> raises
  TypeError, which \<open>decode\<close> does not catch. This holds whatever \<open>int\<close> and \<open>float\<close>
  return.
\<close>

theorem C2_decode_raises:
  "decode pint pfloat self ''$GPGGA,123456,4807.038*4F'' = Inl TypeError"
  by (simp add: decode_def getval_def GGA_S_def RMC_S_def degmin_deg_def bind_err_def)

text \<open>
  C7 at a failing input. The empty hemisphere code is outside N, S, E, W, but
  \<open>"" in "NSEW"\<close> is true for the substring test, so \<open>4807.038\<close> is converted as a
  northern latitude instead of giving 0.0.
\<close>

theorem C7_empty_hemisphere:
  "degmin_deg pf_sample (Some ''4807.038'') (Some []) = Inr (48 + 7.038 / 60) \<and>
   degmin_deg pf_sample (Some ''4807.038'') (Some []) \<noteq> Inr 0"
  by (simp add: degmin_deg_def pf_sample_def)

text \<open>
  C10. Whatever bytes the accumulator holds and whatever \<open>poll\<close> returned, \<open>get_msg\<close>
  and \<open>receive_rtcm\<close> raise nothing: every checked read (the two bytes before the
  preamble, the length word, the CRC table) is in range, and the call returns a
  message, an accumulator and its printed lines.
\<close>

theorem C10_reassembler_total:
  "(\<exists>d data' out. get_msg data = Inr (d, data', out)) \<and>
   (\<exists>d data' out. receive_rtcm data part = Inr (d, data', out))"
  by (simp only: receive_rtcm_def get_msg_returns)

end
